theory Spec2Isabelle
  imports Main "HOL-Library.Word"
begin

section \<open>Audacity preferences: cached settings, scopes and choice settings (Prefs.h)\<close>

subsection \<open>Value initialisation\<close>

text \<open>
  The C++ expression \<^verbatim>\<open>T{}\<close> (value initialisation of the setting's value type) is the
  constant \<open>default\<close> of the type class \<open>default\<close>. For \<^verbatim>\<open>int\<close> it is zero and for
  \<^verbatim>\<open>bool\<close> it is false.
\<close>

instantiation int :: default
begin
definition default_int :: int where "default_int = 0"
instance ..
end

instantiation bool :: default
begin
definition default_bool :: bool where "default_bool = False"
instance ..
end

subsection \<open>Comparison of values\<close>

text \<open>
  The functions that compare two values of the setting's value type with \<^verbatim>\<open>!=\<close> take
  that operator as their parameter \<open>differs\<close>. For \<^verbatim>\<open>bool\<close>, \<^verbatim>\<open>int\<close> and
  \<^verbatim>\<open>wxString\<close> it is the negation of equality, \<open>(\<noteq>)\<close>. For \<^verbatim>\<open>double\<close> it is not:
  a NaN differs from every value, itself included. Of a \<^verbatim>\<open>double\<close> the model keeps
  only whether it is a NaN or a number; \<open>double_ne\<close> is its \<^verbatim>\<open>!=\<close>.
\<close>

datatype double = NaN | Num int

instantiation double :: default
begin
definition default_double :: double where "default_double = Num 0"
instance ..
end

definition double_ne :: "double \<Rightarrow> double \<Rightarrow> bool" where
  "double_ne x y = (x = NaN \<or> y = NaN \<or> x \<noteq> y)"

subsection \<open>The configuration store\<close>

type_synonym RegistryPath = string

text \<open>
  Modelled from the spec: the class \<^verbatim>\<open>FileConfig\<close> (FileConfig.h is included by Prefs.h but
  is not part of the sources at hand). The spec gives it as a string-keyed store with typed
  reads and writes that report success, and a flush. \<open>entries\<close> is the persisted content,
  \<open>accepts\<close> says for which keys a write succeeds, \<open>flushable\<close> whether a flush succeeds;
  \<open>writes\<close> logs the key of every write call issued, \<open>flushes\<close> counts the flush calls.
\<close>

record 'a FileConfig =
  entries :: "RegistryPath \<rightharpoonup> 'a"
  accepts :: "RegistryPath \<Rightarrow> bool"
  flushable :: bool
  writes :: "RegistryPath list"
  flushes :: nat

text \<open>\<^verbatim>\<open>config->ReadObject(path, defaultValue)\<close>: the stored value, or the given default
  when the key is absent.\<close>

definition ReadObject :: "'a FileConfig \<Rightarrow> RegistryPath \<Rightarrow> 'a \<Rightarrow> 'a" where
  "ReadObject c k d = (case entries c k of Some v \<Rightarrow> v | None \<Rightarrow> d)"

text \<open>\<^verbatim>\<open>config->Write(path, value)\<close>: returns whether the write succeeded; a failed write
  leaves the content as it was.\<close>

definition Config_Write :: "'a FileConfig \<Rightarrow> RegistryPath \<Rightarrow> 'a \<Rightarrow> bool \<times> 'a FileConfig" where
  "Config_Write c k v =
     (if accepts c k
      then (True, c\<lparr>entries := (entries c)(k \<mapsto> v), writes := writes c @ [k]\<rparr>)
      else (False, c\<lparr>writes := writes c @ [k]\<rparr>))"

definition Flush :: "'a FileConfig \<Rightarrow> bool \<times> 'a FileConfig" where
  "Flush c = (flushable c, c\<lparr>flushes := Suc (flushes c)\<rparr>)"

subsection \<open>Setting objects, the scope and the global state\<close>

type_synonym addr = nat

text \<open>
  \<^verbatim>\<open>Setting<T>\<close> with the members it inherits from \<^verbatim>\<open>SettingBase\<close> (\<open>mPath\<close>) and
  \<^verbatim>\<open>CachingSettingBase<T>\<close> (\<open>mCurrentValue\<close>, \<open>mValid\<close>). An empty
  \<^verbatim>\<open>std::function\<close> is \<open>None\<close>.
\<close>

record 'a Setting =
  mPath :: RegistryPath
  mCurrentValue :: 'a
  mValid :: bool
  mFunction :: "(unit \<Rightarrow> 'a) option"
  mDefaultValue :: 'a
  mPreviousValue :: 'a

text \<open>\<^verbatim>\<open>std::set< TransactionalSettingBase * > mPending\<close> is a duplicate-free list of
  addresses kept in increasing order, the order in which the set is iterated.\<close>

record SettingScope =
  mPending :: "addr list"
  mCommitted :: bool

text \<open>The global state: the pointer \<^verbatim>\<open>gPrefs\<close> (null is \<open>None\<close>), the static
  \<^verbatim>\<open>SettingScope::sCurrent\<close> together with the scope object it points to, and the
  setting objects by address.\<close>

record 'a world =
  gPrefs :: "'a FileConfig option"
  sCurrent :: "SettingScope option"
  objs :: "addr \<Rightarrow> 'a Setting"

definition update_obj :: "addr \<Rightarrow> ('a Setting \<Rightarrow> 'a Setting) \<Rightarrow> 'a world \<Rightarrow> 'a world" where
  "update_obj p f w = w\<lparr>objs := (objs w)(p := f (objs w p))\<rparr>"

text \<open>The two constructors of \<^verbatim>\<open>Setting<T>\<close>: members without an initialiser in the
  constructor are value-initialised.\<close>

definition Setting_value :: "RegistryPath \<Rightarrow> 'a::default \<Rightarrow> 'a Setting" where
  "Setting_value path defaultValue =
     \<lparr>mPath = path, mCurrentValue = default, mValid = False, mFunction = None,
      mDefaultValue = defaultValue, mPreviousValue = default\<rparr>"

definition Setting_function :: "RegistryPath \<Rightarrow> (unit \<Rightarrow> 'a::default) \<Rightarrow> 'a Setting" where
  "Setting_function path function =
     \<lparr>mPath = path, mCurrentValue = default, mValid = False, mFunction = Some function,
      mDefaultValue = default, mPreviousValue = default\<rparr>"

text \<open>Modelled from the spec: \<^verbatim>\<open>SettingBase::GetConfig\<close> (declared in Prefs.h, defined
  elsewhere) yields the attached store, or null when no store is attached.\<close>

definition GetConfig :: "'a world \<Rightarrow> 'a FileConfig option" where
  "GetConfig w = gPrefs w"

subsection \<open>Reading\<close>

definition GetDefault :: "addr \<Rightarrow> 'a world \<Rightarrow> 'a \<times> 'a world" where
  "GetDefault p w =
     (case mFunction (objs w p) of
        Some f \<Rightarrow> (f (), update_obj p (\<lambda>s. s\<lparr>mDefaultValue := f ()\<rparr>) w)
      | None \<Rightarrow> (mDefaultValue (objs w p), w))"

text \<open>\<^verbatim>\<open>T ReadWithDefault( const T &defaultValue ) const\<close>\<close>

definition ReadWithDefault ::
  "('a \<Rightarrow> 'a \<Rightarrow> bool) \<Rightarrow> addr \<Rightarrow> 'a::default \<Rightarrow> 'a world \<Rightarrow> 'a \<times> 'a world" where
  "ReadWithDefault differs p defaultValue w =
     (if mValid (objs w p) then (mCurrentValue (objs w p), w)
      else case GetConfig w of
        Some config \<Rightarrow>
          (let v = ReadObject config (mPath (objs w p)) defaultValue
           in (v, update_obj p
                    (\<lambda>s. s\<lparr>mCurrentValue := v, mValid := differs v defaultValue\<rparr>) w))
      | None \<Rightarrow> (default, w))"

text \<open>\<^verbatim>\<open>T Read() const\<close>\<close>

definition Read :: "('a \<Rightarrow> 'a \<Rightarrow> bool) \<Rightarrow> addr \<Rightarrow> 'a::default world \<Rightarrow> 'a \<times> 'a world" where
  "Read differs p w = (case GetDefault p w of (d, w1) \<Rightarrow> ReadWithDefault differs p d w1)"

subsection \<open>Writing\<close>

text \<open>\<^verbatim>\<open>bool DoWrite()\<close>: writes the cached value and stores the outcome in \<open>mValid\<close>.\<close>

definition DoWrite :: "addr \<Rightarrow> 'a world \<Rightarrow> bool \<times> 'a world" where
  "DoWrite p w =
     (case GetConfig w of
        Some config \<Rightarrow>
          (case Config_Write config (mPath (objs w p)) (mCurrentValue (objs w p)) of
             (ok, config') \<Rightarrow>
               (ok, update_obj p (\<lambda>s. s\<lparr>mValid := ok\<rparr>) (w\<lparr>gPrefs := Some config'\<rparr>)))
      | None \<Rightarrow> (False, update_obj p (\<lambda>s. s\<lparr>mValid := False\<rparr>) w))"

datatype AddResult = NotAdded | Added | PreviouslyAdded

text \<open>
  Modelled from the spec: \<^verbatim>\<open>SettingScope::Add\<close> (declared in Prefs.h, defined elsewhere),
  following its documentation in Prefs.h: \<open>NotAdded\<close> if there is no pending (and
  uncommitted) scope; \<open>PreviouslyAdded\<close> if there is one, but the given setting object was
  already added since it began; else \<open>Added\<close>.
\<close>

definition Add :: "addr \<Rightarrow> 'a world \<Rightarrow> AddResult \<times> 'a world" where
  "Add p w =
     (case sCurrent w of
        None \<Rightarrow> (NotAdded, w)
      | Some sc \<Rightarrow>
          if mCommitted sc then (NotAdded, w)
          else if p \<in> set (mPending sc) then (PreviouslyAdded, w)
          else (Added, w\<lparr>sCurrent := Some (sc\<lparr>mPending := insort p (mPending sc)\<rparr>)\<rparr>))"

text \<open>\<^verbatim>\<open>bool Write( const T &value )\<close>\<close>

definition Write ::
  "('a \<Rightarrow> 'a \<Rightarrow> bool) \<Rightarrow> addr \<Rightarrow> 'a::default \<Rightarrow> 'a world \<Rightarrow> bool \<times> 'a world" where
  "Write differs p v w =
     (case Add p w of
        (NotAdded, w1) \<Rightarrow>
          (case GetConfig w1 of
             Some config \<Rightarrow> DoWrite p (update_obj p (\<lambda>s. s\<lparr>mCurrentValue := v\<rparr>) w1)
           | None \<Rightarrow> (False, w1))
      | (Added, w1) \<Rightarrow>
          (case Read differs p w1 of
             (r, w2) \<Rightarrow>
               (True, update_obj p (\<lambda>s. s\<lparr>mCurrentValue := v\<rparr>)
                        (update_obj p (\<lambda>s. s\<lparr>mPreviousValue := r\<rparr>) w2)))
      | (PreviouslyAdded, w1) \<Rightarrow> (True, update_obj p (\<lambda>s. s\<lparr>mCurrentValue := v\<rparr>) w1))"

definition Reset :: "('a \<Rightarrow> 'a \<Rightarrow> bool) \<Rightarrow> addr \<Rightarrow> 'a::default world \<Rightarrow> bool \<times> 'a world" where
  "Reset differs p w = (case GetDefault p w of (d, w1) \<Rightarrow> Write differs p d w1)"

definition Commit :: "addr \<Rightarrow> 'a world \<Rightarrow> bool \<times> 'a world" where
  "Commit p w = DoWrite p w"

definition Invalidate :: "addr \<Rightarrow> 'a world \<Rightarrow> 'a world" where
  "Invalidate p w = update_obj p (\<lambda>s. s\<lparr>mValid := False\<rparr>) w"

definition Rollback :: "addr \<Rightarrow> 'a world \<Rightarrow> 'a world" where
  "Rollback p w = update_obj p (\<lambda>s. s\<lparr>mCurrentValue := mPreviousValue s\<rparr>) w"

subsection \<open>Scopes and transactions\<close>

datatype error = AssertionFailed

text \<open>
  Modelled from the spec: the constructor of \<^verbatim>\<open>SettingScope\<close> (declared in Prefs.h,
  defined elsewhere). Beginning a scope fails if another scope is already active; otherwise
  the new scope, with nothing pending and not committed, becomes the current one.
\<close>

definition SettingScope_begin :: "'a world \<Rightarrow> error + 'a world" where
  "SettingScope_begin w =
     (case sCurrent w of
        Some sc \<Rightarrow> Inl AssertionFailed
      | None \<Rightarrow> Inr (w\<lparr>sCurrent := Some \<lparr>mPending = [], mCommitted = False\<rparr>\<rparr>))"

fun rollback_all :: "addr list \<Rightarrow> 'a world \<Rightarrow> 'a world" where
  "rollback_all [] w = w"
| "rollback_all (p # ps) w = rollback_all ps (Rollback p w)"

text \<open>
  Modelled from the spec: the destructor of \<^verbatim>\<open>SettingScope\<close> (declared in Prefs.h,
  defined elsewhere). Destruction without a prior successful commit rolls back every
  staged setting, with no store access, and releases the global active-scope slot.
\<close>

definition SettingScope_end :: "'a world \<Rightarrow> 'a world" where
  "SettingScope_end w =
     (case sCurrent w of
        None \<Rightarrow> w
      | Some sc \<Rightarrow>
          (if mCommitted sc then w else rollback_all (mPending sc) w)\<lparr>sCurrent := None\<rparr>)"

fun commit_all :: "addr list \<Rightarrow> 'a world \<Rightarrow> bool \<times> 'a world" where
  "commit_all [] w = (True, w)"
| "commit_all (p # ps) w =
     (case Commit p w of
        (ok, w1) \<Rightarrow> (case commit_all ps w1 of (oks, w2) \<Rightarrow> (ok \<and> oks, w2)))"

text \<open>
  Modelled from the spec: \<^verbatim>\<open>SettingTransaction::Commit\<close> (declared in Prefs.h, defined
  elsewhere). For every staged setting, invoke its commit operation; if all succeed, flush
  the store once and mark the scope committed, returning true; if any commit fails, report
  failure without rolling anything back. The transaction is the current scope.
\<close>

definition SettingTransaction_Commit :: "'a world \<Rightarrow> bool \<times> 'a world" where
  "SettingTransaction_Commit w =
     (case sCurrent w of
        None \<Rightarrow> (False, w)
      | Some sc \<Rightarrow>
          (case commit_all (mPending sc) w of
             (ok, w1) \<Rightarrow>
               if ok
               then (True, w1\<lparr>gPrefs := map_option (\<lambda>c. snd (Flush c)) (gPrefs w1),
                               sCurrent := Some (sc\<lparr>mCommitted := True\<rparr>)\<rparr>)
               else (False, w1)))"

subsection \<open>Choice and enumeration settings\<close>

text \<open>
  \<^verbatim>\<open>static_cast<long>(mSymbols.size())\<close>, with \<^verbatim>\<open>long\<close> of 64 bits: the size is
  reduced modulo \<open>2 ^ 64\<close> and read as a signed number.
\<close>

definition long_of_size :: "nat \<Rightarrow> int" where
  "long_of_size n = sint (word_of_nat n :: 64 word)"

text \<open>
  Modelled from the spec: \<^verbatim>\<open>EnumValueSymbol\<close>, that is \<^verbatim>\<open>ComponentInterfaceSymbol\<close>
  (ComponentInterfaceSymbol.h is not part of the sources at hand): a row of the symbol
  table is a persisted string code together with a display symbol.
\<close>

record EnumValueSymbol =
  Internal :: string
  Msgid :: string

text \<open>\<^verbatim>\<open>ChoiceSetting\<close>. The default row \<^verbatim>\<open>long mDefaultSymbol\<close> is a 64-bit word read
  as signed; \<open>mpOtherSettings\<close> is an address or null.\<close>

record ChoiceSetting =
  mKey :: RegistryPath
  mSymbols :: "EnumValueSymbol list"
  mpOtherSettings :: "addr option"
  mMigrated :: bool
  mDefaultSymbol :: "64 word"

text \<open>
  The two constructors of \<^verbatim>\<open>ChoiceSetting\<close> differ in \<open>mpOtherSettings\<close> only, which
  is the address of the key object for the first and null for the second. A failed
  \<^verbatim>\<open>assert\<close> is the result \<open>Inl AssertionFailed\<close>.
\<close>

definition ChoiceSetting_ctor ::
  "RegistryPath \<Rightarrow> addr option \<Rightarrow> EnumValueSymbol list \<Rightarrow> 64 word \<Rightarrow> error + ChoiceSetting" where
  "ChoiceSetting_ctor key other symbols defaultSymbol =
     (if sint defaultSymbol < long_of_size (length symbols)
      then Inr \<lparr>mKey = key, mSymbols = symbols, mpOtherSettings = other,
                mMigrated = False, mDefaultSymbol = defaultSymbol\<rparr>
      else Inl AssertionFailed)"

record EnumSettingBase = ChoiceSetting +
  mIntValues :: "int list"
  mOldKey :: RegistryPath

definition EnumSettingBase_ctor ::
  "RegistryPath \<Rightarrow> addr option \<Rightarrow> EnumValueSymbol list \<Rightarrow> 64 word \<Rightarrow> int list \<Rightarrow> RegistryPath
     \<Rightarrow> error + EnumSettingBase" where
  "EnumSettingBase_ctor key other symbols defaultSymbol intValues oldKey =
     (case ChoiceSetting_ctor key other symbols defaultSymbol of
        Inl e \<Rightarrow> Inl e
      | Inr c \<Rightarrow>
          if length intValues = length (mSymbols c)
          then Inr (ChoiceSetting.extend c \<lparr>mIntValues = intValues, mOldKey = oldKey\<rparr>)
          else Inl AssertionFailed)"

text \<open>\<^verbatim>\<open>EnumSetting<Enum>\<close>: the constructor converts each enumerator to \<^verbatim>\<open>int\<close>
  (\<open>to_int\<close>) and passes the table on.\<close>

definition EnumSetting_ctor ::
  "('e \<Rightarrow> int) \<Rightarrow> RegistryPath \<Rightarrow> addr option \<Rightarrow> EnumValueSymbol list \<Rightarrow> 64 word \<Rightarrow> 'e list
     \<Rightarrow> RegistryPath \<Rightarrow> error + EnumSettingBase" where
  "EnumSetting_ctor to_int key other symbols defaultSymbol values oldKey =
     EnumSettingBase_ctor key other symbols defaultSymbol (map to_int values) oldKey"

text \<open>
  The member functions of \<^verbatim>\<open>ChoiceSetting\<close> and \<^verbatim>\<open>EnumSettingBase\<close> that are not
  \<^verbatim>\<open>const\<close>, or that change the \<^verbatim>\<open>mutable\<close> flag \<open>mMigrated\<close>, are declared in
  Prefs.h and defined elsewhere. The store they use holds strings and integers.
\<close>

datatype pref_value = StringValue string | IntValue int

text \<open>Modelled from the spec: deletion of a key of the store (\<^verbatim>\<open>FileConfig\<close> is not part
  of the sources at hand); true iff the key was present.\<close>

definition DeleteEntry :: "'a FileConfig \<Rightarrow> RegistryPath \<Rightarrow> bool \<times> 'a FileConfig" where
  "DeleteEntry c k = (entries c k \<noteq> None, c\<lparr>entries := (entries c)(k := None)\<rparr>)"

text \<open>Modelled from the spec: \<^verbatim>\<open>ChoiceSetting::SetDefault\<close> (declared in Prefs.h with the
  precondition \<^verbatim>\<open>defaultSymbol < static_cast<long>(GetSymbols().size())\<close>) sets the default
  row.\<close>

definition SetDefault ::
  "64 word \<Rightarrow> 'z ChoiceSetting_scheme \<Rightarrow> error + 'z ChoiceSetting_scheme" where
  "SetDefault v e =
     (if sint v < long_of_size (length (mSymbols e)) then Inr (e\<lparr>mDefaultSymbol := v\<rparr>)
      else Inl AssertionFailed)"

text \<open>Modelled from the spec: \<^verbatim>\<open>ChoiceSetting::Write\<close> (declared in Prefs.h) writes the
  string code to the store at the setting's key and returns success; with no store
  attached every write fails.\<close>

definition ChoiceSetting_Write ::
  "string \<Rightarrow> 'z ChoiceSetting_scheme \<Rightarrow> pref_value FileConfig option
     \<Rightarrow> bool \<times> pref_value FileConfig option" where
  "ChoiceSetting_Write code e cfg =
     (case cfg of
        None \<Rightarrow> (False, None)
      | Some c \<Rightarrow> (case Config_Write c (mKey e) (StringValue code) of (ok, c') \<Rightarrow> (ok, Some c')))"

text \<open>Modelled from the spec: \<^verbatim>\<open>EnumSettingBase::FindInt\<close> (declared in Prefs.h) looks up
  a code's row in the table of integer codes; the table's size says that it is absent.\<close>

definition FindInt :: "int \<Rightarrow> 'z EnumSettingBase_scheme \<Rightarrow> nat" where
  "FindInt code e = length (takeWhile (\<lambda>i. i \<noteq> code) (mIntValues e))"

text \<open>Modelled from the spec: \<^verbatim>\<open>EnumSettingBase::WriteInt\<close> (declared in Prefs.h) maps the
  integer to its row, then to the string code of that row of the symbol table, and
  delegates to \<^verbatim>\<open>ChoiceSetting::Write\<close>. A code not in the table, or a row beyond the
  symbol table, is written nowhere.\<close>

definition WriteInt ::
  "int \<Rightarrow> 'z EnumSettingBase_scheme \<Rightarrow> pref_value FileConfig option
     \<Rightarrow> bool \<times> pref_value FileConfig option" where
  "WriteInt code e cfg =
     (let row = FindInt code e
      in if row < length (mIntValues e) \<and> row < length (mSymbols e)
         then ChoiceSetting_Write (Internal (mSymbols e ! row)) e cfg
         else (False, cfg))"

text \<open>
  Modelled from the spec: \<^verbatim>\<open>EnumSettingBase::Migrate\<close> (declared in Prefs.h), the hook
  invoked during every read. If migration has not yet happened and a legacy key is
  configured, it reads the legacy integer, maps it to its row through the table of integer
  codes, writes that row's string code to the new key, deletes the legacy key, and marks
  migration done; it runs at most once for an object.
\<close>

definition Migrate ::
  "'z EnumSettingBase_scheme \<Rightarrow> pref_value FileConfig option
     \<Rightarrow> 'z EnumSettingBase_scheme \<times> pref_value FileConfig option" where
  "Migrate e cfg =
     (if mMigrated e \<or> mOldKey e = [] then (e, cfg)
      else
        (e\<lparr>mMigrated := True\<rparr>,
         case cfg of
           None \<Rightarrow> None
         | Some c \<Rightarrow>
             (case entries c (mOldKey e) of
                Some (IntValue i) \<Rightarrow>
                  (let row = FindInt i e
                   in if row < length (mIntValues e) \<and> row < length (mSymbols e)
                      then (case ChoiceSetting_Write (Internal (mSymbols e ! row)) e (Some c) of
                              (ok, cfg') \<Rightarrow>
                                map_option (\<lambda>c'. snd (DeleteEntry c' (mOldKey e))) cfg')
                      else Some c)
              | _ \<Rightarrow> Some c)))"

text \<open>The calls a client can make on an enumeration setting after its construction, and
  their effect on the object and the store; a run of calls stops at a failed assertion.\<close>

datatype enum_call = CallRead | CallWriteInt int | CallSetDefault "64 word"

fun enum_step ::
  "enum_call \<Rightarrow> EnumSettingBase \<times> pref_value FileConfig option
     \<Rightarrow> error + EnumSettingBase \<times> pref_value FileConfig option" where
  "enum_step CallRead (e, cfg) = Inr (Migrate e cfg)"
| "enum_step (CallWriteInt code) (e, cfg) = Inr (e, snd (WriteInt code e cfg))"
| "enum_step (CallSetDefault v) (e, cfg) =
     (case SetDefault v e of Inl err \<Rightarrow> Inl err | Inr e' \<Rightarrow> Inr (e', cfg))"

fun enum_run ::
  "enum_call list \<Rightarrow> EnumSettingBase \<times> pref_value FileConfig option
     \<Rightarrow> error + EnumSettingBase \<times> pref_value FileConfig option" where
  "enum_run [] st = Inr st"
| "enum_run (c # cs) st =
     (case enum_step c st of Inl err \<Rightarrow> Inl err | Inr st' \<Rightarrow> enum_run cs st')"

subsection \<open>Concrete states\<close>

definition config0 :: "int FileConfig" where
  "config0 = \<lparr>entries = Map.empty, accepts = (\<lambda>k. True), flushable = True,
              writes = [], flushes = 0\<rparr>"

text \<open>One setting object at every address, constructed with path \<open>''/A''\<close> and default 5;
  no scope.\<close>

definition world0 :: "int FileConfig option \<Rightarrow> int world" where
  "world0 cfg = \<lparr>gPrefs = cfg, sCurrent = None, objs = (\<lambda>p. Setting_value ''/A'' 5)\<rparr>"

text \<open>The same with a scope begun and nothing staged.\<close>

definition world1 :: "int FileConfig option \<Rightarrow> int world" where
  "world1 cfg = (world0 cfg)\<lparr>sCurrent := Some \<lparr>mPending = [], mCommitted = False\<rparr>\<rparr>"

text \<open>A store holding 3 at \<open>''/A''\<close>, and a store that rejects every write.\<close>

definition config1 :: "int FileConfig" where
  "config1 = config0\<lparr>entries := [''/A'' \<mapsto> 3]\<rparr>"

definition config_reject :: "int FileConfig" where
  "config_reject = config0\<lparr>accepts := (\<lambda>k. False)\<rparr>"

text \<open>A setting of type \<^verbatim>\<open>double\<close> whose default is a NaN, with an empty store attached.\<close>

definition world_nan :: "double world" where
  "world_nan =
     \<lparr>gPrefs = Some \<lparr>entries = Map.empty, accepts = (\<lambda>k. True), flushable = True,
                      writes = [], flushes = 0\<rparr>,
      sCurrent = None, objs = (\<lambda>p. Setting_value ''/D'' NaN)\<rparr>"

text \<open>A setting whose cache holds 3 and is valid, with no store attached, and a scope
  begun.\<close>

definition world_cached :: "int world" where
  "world_cached =
     \<lparr>gPrefs = None, sCurrent = Some \<lparr>mPending = [], mCommitted = False\<rparr>,
      objs = (\<lambda>p. (Setting_value ''/A'' 5)\<lparr>mCurrentValue := 3, mValid := True\<rparr>)\<rparr>"

text \<open>In a scope: read the setting at address 0, write 7 to it, call the transaction's
  commit, end the scope.\<close>

definition staged7 :: "int world \<Rightarrow> int world" where
  "staged7 w = snd (Write (\<noteq>) 0 7 (snd (Read (\<noteq>) 0 w)))"

definition commit_then_end :: "int world \<Rightarrow> int world" where
  "commit_then_end w = SettingScope_end (snd (SettingTransaction_Commit (staged7 w)))"

text \<open>Two settings with different paths and a scope begun; then 7 and 8 staged for them.
  \<open>config_A\<close> accepts writes to \<open>''/A''\<close> only.\<close>

definition config_A :: "int FileConfig" where
  "config_A = config0\<lparr>accepts := (\<lambda>k. k = ''/A'')\<rparr>"

definition world_AB :: "int FileConfig \<Rightarrow> int world" where
  "world_AB cfg =
     \<lparr>gPrefs = Some cfg, sCurrent = Some \<lparr>mPending = [], mCommitted = False\<rparr>,
      objs = (\<lambda>p. if p = 0 then Setting_value ''/A'' 5 else Setting_value ''/B'' 6)\<rparr>"

definition staged_AB :: "int FileConfig \<Rightarrow> int world" where
  "staged_AB cfg = snd (Write (\<noteq>) 1 8 (snd (Write (\<noteq>) 0 7 (world_AB cfg))))"

text \<open>A table of three rows, an enumeration setting over it as its constructor leaves it,
  and a store holding the legacy integer code 30.\<close>

definition symbols3 :: "EnumValueSymbol list" where
  "symbols3 = [\<lparr>Internal = ''a'', Msgid = ''A''\<rparr>, \<lparr>Internal = ''b'', Msgid = ''B''\<rparr>,
               \<lparr>Internal = ''c'', Msgid = ''C''\<rparr>]"

definition enum3 :: EnumSettingBase where
  "enum3 = \<lparr>mKey = ''/K'', mSymbols = symbols3, mpOtherSettings = None, mMigrated = False,
            mDefaultSymbol = 0, mIntValues = [10, 20, 30], mOldKey = ''/old''\<rparr>"

definition store3 :: "pref_value FileConfig" where
  "store3 = \<lparr>entries = [''/old'' \<mapsto> IntValue 30], accepts = (\<lambda>k. True), flushable = True,
             writes = [], flushes = 0\<rparr>"

subsection \<open>Auxiliary notions\<close>

text \<open>The store after a list of writes, and the write that the commit of a setting issues.\<close>

fun write_all :: "(RegistryPath \<times> 'a) list \<Rightarrow> 'a FileConfig \<Rightarrow> 'a FileConfig" where
  "write_all [] c = c"
| "write_all ((k, v) # kvs) c = write_all kvs (snd (Config_Write c k v))"

definition staged :: "'a world \<Rightarrow> addr \<Rightarrow> RegistryPath \<times> 'a" where
  "staged w p = (mPath (objs w p), mCurrentValue (objs w p))"

section \<open>Properties\<close>

lemmas defs = Read_def GetDefault_def ReadWithDefault_def GetConfig_def ReadObject_def
  update_obj_def Let_def Write_def Add_def DoWrite_def Config_Write_def

lemmas states = world0_def world1_def config0_def config1_def Setting_value_def default_int_def

subsection \<open>Reading\<close>

text \<open>
  C1, as stated, fails: with no store attached and the cache invalid, \<open>Read\<close> returns the
  value-initialised \<^verbatim>\<open>T{}\<close> (here 0), not the resolved default (here 5).
\<close>

theorem Read_no_store_counterexample:
  "fst (Read (\<noteq>) 0 (world0 None)) \<noteq> fst (GetDefault 0 (world0 None))"
  by (simp add: Read_def GetDefault_def ReadWithDefault_def GetConfig_def states)

text \<open>
  C1, amended: \<open>Read\<close> returns the cached value when the validity flag is set. Otherwise,
  with a store attached, it returns the stored value, or the resolved default when the key
  is absent; with no store attached it returns the value-initialised \<^verbatim>\<open>T{}\<close>. With no
  store attached the cache is invalid afterwards. When the key is absent from the attached
  store, the cache is invalid afterwards provided the resolved default is equal to itself,
  as every value except a NaN of type \<^verbatim>\<open>double\<close> is: the validity flag is the outcome
  of comparing the resolved default with itself by \<^verbatim>\<open>!=\<close>. \<open>Read\<close> never changes
  the store.
\<close>

theorem Read_result:
  "fst (Read differs p w) =
     (if mValid (objs w p) then mCurrentValue (objs w p)
      else case gPrefs w of
             None \<Rightarrow> default
           | Some c \<Rightarrow> (case entries c (mPath (objs w p)) of
                          Some v \<Rightarrow> v
                        | None \<Rightarrow> fst (GetDefault p w)))
   \<and> (\<not> mValid (objs w p) \<and> gPrefs w = None
      \<longrightarrow> \<not> mValid (objs (snd (Read differs p w)) p))
   \<and> (\<not> mValid (objs w p) \<and> (\<exists>c. gPrefs w = Some c \<and> entries c (mPath (objs w p)) = None)
      \<longrightarrow> mValid (objs (snd (Read differs p w)) p)
            = differs (fst (GetDefault p w)) (fst (GetDefault p w)))
   \<and> gPrefs (snd (Read differs p w)) = gPrefs w"
  by (auto simp add: defs split: option.splits)

theorem Read_result_witness:
  "fst (Read (\<noteq>) 0 (world0 (Some config0))) = 5 \<and> fst (Read (\<noteq>) 0 (world0 None)) = 0
   \<and> \<not> mValid (objs (snd (Read (\<noteq>) 0 (world0 (Some config0)))) 0)
   \<and> \<not> mValid (objs (snd (Read (\<noteq>) 0 (world0 None))) 0)
   \<and> fst (Read (\<noteq>) 0 (world0 (Some config1))) = 3
   \<and> fst (Read double_ne 0 world_nan) = NaN
   \<and> mValid (objs (snd (Read double_ne 0 world_nan)) 0)"
  using Read_result [of "(\<noteq>)" 0 "world0 (Some config0)"] Read_result [of "(\<noteq>)" 0 "world0 None"]
    Read_result [of "(\<noteq>)" 0 "world0 (Some config1)"] Read_result [of double_ne 0 world_nan]
  by (simp add: states GetDefault_def world_nan_def double_ne_def)

text \<open>
  C6: if \<open>ReadWithDefault d\<close> consults the store and finds a persisted value \<open>v\<close> equal to
  the fallback \<open>d\<close> (one that \<^verbatim>\<open>!=\<close> does not tell from \<open>d\<close>), it returns \<open>v\<close> and
  leaves the cache marked invalid. A later \<open>ReadWithDefault\<close> therefore consults the store
  again, whatever the store then holds; with the store unchanged and a fallback that
  differs from \<open>v\<close> it returns the persisted value and marks the cache valid.
\<close>

theorem ReadWithDefault_equal_fallback:
  assumes "\<not> mValid (objs w p)" and "gPrefs w = Some c"
    and "entries c (mPath (objs w p)) = Some v" and "\<not> differs v d"
  shows "fst (ReadWithDefault differs p d w) = v
       \<and> \<not> mValid (objs (snd (ReadWithDefault differs p d w)) p)
       \<and> (\<forall>c' d'. fst (ReadWithDefault differs p d'
                          ((snd (ReadWithDefault differs p d w))\<lparr>gPrefs := Some c'\<rparr>))
                     = ReadObject c' (mPath (objs w p)) d')
       \<and> (\<forall>d'. differs v d' \<longrightarrow>
             fst (ReadWithDefault differs p d' (snd (ReadWithDefault differs p d w))) = v
           \<and> mValid (objs (snd (ReadWithDefault differs p d'
                                   (snd (ReadWithDefault differs p d w)))) p))"
  using assms
  by (auto simp add: defs split: option.splits if_splits)

theorem ReadWithDefault_equal_fallback_witness:
  "\<not> mValid (objs (world0 (Some config1)) 0) \<and> gPrefs (world0 (Some config1)) = Some config1
   \<and> entries config1 (mPath (objs (world0 (Some config1)) 0)) = Some 3
   \<and> \<not> (3::int) \<noteq> 3
   \<and> fst (ReadWithDefault (\<noteq>) 0 3 (world0 (Some config1))) = 3
   \<and> \<not> mValid (objs (snd (ReadWithDefault (\<noteq>) 0 3 (world0 (Some config1)))) 0)
   \<and> (3::int) \<noteq> 4
   \<and> fst (ReadWithDefault (\<noteq>) 0 4 (snd (ReadWithDefault (\<noteq>) 0 3 (world0 (Some config1))))) = 3
   \<and> mValid (objs (snd (ReadWithDefault (\<noteq>) 0 4
                          (snd (ReadWithDefault (\<noteq>) 0 3 (world0 (Some config1)))))) 0)"
proof -
  have a: "\<not> mValid (objs (world0 (Some config1)) 0)"
    and b: "gPrefs (world0 (Some config1)) = Some config1"
    and c: "entries config1 (mPath (objs (world0 (Some config1)) 0)) = Some 3"
    by (simp_all add: states)
  have d: "\<not> (3::int) \<noteq> 3" by simp
  show ?thesis
    using a b c ReadWithDefault_equal_fallback [of "world0 (Some config1)" 0 config1 3 "(\<noteq>)" 3, OF a b c d]
    by (simp add: defs states)
qed

subsection \<open>Eager writes\<close>

text \<open>
  C4: with no transaction scope active, the store attached and its write of the setting's
  key succeeding, \<open>Write v\<close> followed by \<open>Read\<close> returns \<open>v\<close>.
\<close>

theorem write_then_read:
  assumes "sCurrent w = None"
    and "gPrefs w = Some c"
    and "accepts c (mPath (objs w p))"
  shows "fst (Write differs p v w) = True \<and> fst (Read differs p (snd (Write differs p v w))) = v"
  using assms
  by (simp add: defs split: option.splits)

theorem write_then_read_witness:
  "sCurrent (world0 (Some config0)) = None \<and> gPrefs (world0 (Some config0)) = Some config0
   \<and> accepts config0 (mPath (objs (world0 (Some config0)) 0))
   \<and> fst (Write (\<noteq>) 0 7 (world0 (Some config0))) = True
   \<and> fst (Read (\<noteq>) 0 (snd (Write (\<noteq>) 0 7 (world0 (Some config0))))) = 7"
  using write_then_read [of "world0 (Some config0)" config0 0 "(\<noteq>)" 7]
  by (simp add: world0_def config0_def)

text \<open>
  C10, as stated, fails: when the store is absent, an eager \<open>Write 7\<close> returns false
  without touching the cache, so the cached value is not 7 afterwards.
\<close>

theorem eager_write_no_store_counterexample:
  "fst (Write (\<noteq>) 0 7 (world0 None)) = False
   \<and> mCurrentValue (objs (snd (Write (\<noteq>) 0 7 (world0 None))) 0) \<noteq> 7"
  by (simp add: defs states)

text \<open>
  C10, amended: when an eager \<open>Write v\<close> (one for which \<open>Add\<close> answers \<open>NotAdded\<close>)
  fails because the attached store's write returns false, the cached value has been set to
  \<open>v\<close> and the validity flag is false, so the next \<open>Read\<close> consults the store again and
  returns what the store holds, or the resolved default. When no store is attached, \<open>Write\<close>
  returns false and changes nothing, neither the cached value nor the validity flag.
\<close>

theorem eager_write_failure:
  assumes "fst (Add p w) = NotAdded"
  shows "(\<forall>c. gPrefs w = Some c \<and> \<not> accepts c (mPath (objs w p)) \<longrightarrow>
            fst (Write differs p v w) = False
          \<and> mCurrentValue (objs (snd (Write differs p v w)) p) = v
          \<and> \<not> mValid (objs (snd (Write differs p v w)) p)
          \<and> gPrefs (snd (Write differs p v w)) \<noteq> None
          \<and> fst (Read differs p (snd (Write differs p v w)))
              = ReadObject (the (gPrefs (snd (Write differs p v w)))) (mPath (objs w p))
                  (fst (GetDefault p w)))
       \<and> (gPrefs w = None \<longrightarrow> Write differs p v w = (False, w))"
  using assms
  by (auto simp add: defs split: option.splits if_splits)

theorem eager_write_failure_witness:
  "fst (Add 0 (world0 (Some config_reject))) = NotAdded
   \<and> fst (Add 0 (world0 None)) = NotAdded
   \<and> fst (Write (\<noteq>) 0 7 (world0 (Some config_reject))) = False
   \<and> mCurrentValue (objs (snd (Write (\<noteq>) 0 7 (world0 (Some config_reject)))) 0) = 7
   \<and> \<not> mValid (objs (snd (Write (\<noteq>) 0 7 (world0 (Some config_reject)))) 0)
   \<and> fst (Read (\<noteq>) 0 (snd (Write (\<noteq>) 0 7 (world0 (Some config_reject))))) = 5
   \<and> Write (\<noteq>) 0 7 (world0 None) = (False, world0 None)"
proof -
  have a: "fst (Add 0 (world0 (Some config_reject))) = NotAdded"
    and b: "fst (Add 0 (world0 None)) = NotAdded"
    by (simp_all add: Add_def world0_def)
  show ?thesis
    using a b eager_write_failure [OF a, of "(\<noteq>)" 7] eager_write_failure [OF b, of "(\<noteq>)" 7]
    by (simp add: defs states config_reject_def)
qed

subsection \<open>Staged writes\<close>

text \<open>
  C5: with an uncommitted scope active, the first \<open>Write v\<close> to a setting in that scope
  returns true, leaves the setting as \<open>Read\<close> leaves it except that the value \<open>Read\<close>
  returned is kept as the rollback point and the cached value is \<open>v\<close>, leaves every other
  setting and the store (content and log of writes) as they were, and adds the setting to
  the pending set. A \<open>Write v\<close> to a setting already pending only sets the cached value
  and returns true.
\<close>

theorem staged_write:
  assumes "sCurrent w = Some sc" and "\<not> mCommitted sc"
  shows "(p \<notin> set (mPending sc) \<longrightarrow>
            fst (Write differs p v w) = True
          \<and> objs (snd (Write differs p v w)) p
              = (objs (snd (Read differs p w)) p)
                  \<lparr>mPreviousValue := fst (Read differs p w), mCurrentValue := v\<rparr>
          \<and> (\<forall>q. q \<noteq> p \<longrightarrow> objs (snd (Write differs p v w)) q = objs w q)
          \<and> gPrefs (snd (Write differs p v w)) = gPrefs w
          \<and> sCurrent (snd (Write differs p v w))
              = Some (sc\<lparr>mPending := insort p (mPending sc)\<rparr>))
       \<and> (p \<in> set (mPending sc) \<longrightarrow>
            Write differs p v w = (True, update_obj p (\<lambda>s. s\<lparr>mCurrentValue := v\<rparr>) w))"
  using assms
  by (auto simp add: defs split: option.splits if_splits)

theorem staged_write_witness:
  "sCurrent (world1 (Some config1)) = Some \<lparr>mPending = [], mCommitted = False\<rparr>
   \<and> 0 \<notin> set (mPending \<lparr>mPending = [], mCommitted = False\<rparr>)
   \<and> fst (Write (\<noteq>) 0 7 (world1 (Some config1))) = True
   \<and> mPreviousValue (objs (snd (Write (\<noteq>) 0 7 (world1 (Some config1)))) 0) = 3
   \<and> mCurrentValue (objs (snd (Write (\<noteq>) 0 7 (world1 (Some config1)))) 0) = 7
   \<and> gPrefs (snd (Write (\<noteq>) 0 7 (world1 (Some config1)))) = Some config1
   \<and> sCurrent (snd (Write (\<noteq>) 0 7 (world1 (Some config1))))
       = Some \<lparr>mPending = [0], mCommitted = False\<rparr>
   \<and> 0 \<in> set (mPending \<lparr>mPending = [0], mCommitted = False\<rparr>)
   \<and> fst (Write (\<noteq>) 0 8 (snd (Write (\<noteq>) 0 7 (world1 (Some config1))))) = True
   \<and> mCurrentValue (objs (snd (Write (\<noteq>) 0 8 (snd (Write (\<noteq>) 0 7 (world1 (Some config1)))))) 0) = 8
   \<and> mPreviousValue (objs (snd (Write (\<noteq>) 0 8 (snd (Write (\<noteq>) 0 7 (world1 (Some config1)))))) 0) = 3"
proof -
  have a: "sCurrent (world1 (Some config1)) = Some \<lparr>mPending = [], mCommitted = False\<rparr>"
    by (simp add: world1_def)
  have b: "\<not> mCommitted \<lparr>mPending = [], mCommitted = False\<rparr>" by simp
  note first = staged_write [OF a b, of 0 "(\<noteq>)" 7]
  from first have c: "sCurrent (snd (Write (\<noteq>) 0 7 (world1 (Some config1))))
      = Some \<lparr>mPending = [0], mCommitted = False\<rparr>" by simp
  have d: "\<not> mCommitted \<lparr>mPending = [0], mCommitted = False\<rparr>" by simp
  note second = staged_write [OF c d, of 0 "(\<noteq>)" 8]
  show ?thesis
    using a first second c by (simp add: defs states)
qed

text \<open>
  C9: a staged write need not be observable through \<open>Read\<close> before commit. For a setting
  whose cache is invalid, whose key is absent from the attached store and whose resolved
  default is equal to itself (as every value but a NaN is), \<open>Write v\<close> inside an
  uncommitted scope returns true and caches \<open>v\<close> but leaves the validity flag false; the
  following \<open>Read\<close> returns the resolved default and overwrites the cached value with it.
  The witness is the state right after construction of the setting and of the scope, with
  \<open>v = 7\<close> and default 5.
\<close>

theorem staged_write_not_observable:
  assumes "sCurrent w = Some sc" and "\<not> mCommitted sc"
    and "gPrefs w = Some c" and "entries c (mPath (objs w p)) = None"
    and "\<not> mValid (objs w p)"
    and "\<not> differs (fst (GetDefault p w)) (fst (GetDefault p w))"
  shows "fst (Write differs p v w) = True
       \<and> mCurrentValue (objs (snd (Write differs p v w)) p) = v
       \<and> \<not> mValid (objs (snd (Write differs p v w)) p)
       \<and> fst (Read differs p (snd (Write differs p v w))) = fst (GetDefault p w)
       \<and> mCurrentValue (objs (snd (Read differs p (snd (Write differs p v w)))) p)
           = fst (GetDefault p w)"
  using assms
  by (auto simp add: defs split: option.splits if_splits)

theorem staged_write_not_observable_witness:
  "SettingScope_begin (world0 (Some config0)) = Inr (world1 (Some config0))
   \<and> sCurrent (world1 (Some config0)) = Some \<lparr>mPending = [], mCommitted = False\<rparr>
   \<and> gPrefs (world1 (Some config0)) = Some config0
   \<and> entries config0 (mPath (objs (world1 (Some config0)) 0)) = None
   \<and> \<not> mValid (objs (world1 (Some config0)) 0)
   \<and> \<not> fst (GetDefault 0 (world1 (Some config0))) \<noteq> fst (GetDefault 0 (world1 (Some config0)))
   \<and> fst (Write (\<noteq>) 0 7 (world1 (Some config0))) = True
   \<and> mCurrentValue (objs (snd (Write (\<noteq>) 0 7 (world1 (Some config0)))) 0) = 7
   \<and> fst (Read (\<noteq>) 0 (snd (Write (\<noteq>) 0 7 (world1 (Some config0))))) = 5
   \<and> mCurrentValue (objs (snd (Read (\<noteq>) 0 (snd (Write (\<noteq>) 0 7 (world1 (Some config0)))))) 0) = 5"
proof -
  have a: "sCurrent (world1 (Some config0)) = Some \<lparr>mPending = [], mCommitted = False\<rparr>"
    and b: "\<not> mCommitted \<lparr>mPending = [], mCommitted = False\<rparr>"
    and c: "gPrefs (world1 (Some config0)) = Some config0"
    and d: "entries config0 (mPath (objs (world1 (Some config0)) 0)) = None"
    and e: "\<not> mValid (objs (world1 (Some config0)) 0)"
    by (simp_all add: states)
  have g: "\<not> fst (GetDefault 0 (world1 (Some config0)))
             \<noteq> fst (GetDefault 0 (world1 (Some config0)))"
    by simp
  have f: "SettingScope_begin (world0 (Some config0)) = Inr (world1 (Some config0))"
    by (simp add: SettingScope_begin_def world0_def world1_def)
  show ?thesis
    using a c d e f staged_write_not_observable [where differs = "(\<noteq>)", OF a b c d e g, of 7]
    by (simp add: GetDefault_def states)
qed

subsection \<open>Rollback\<close>

text \<open>
  C3, as stated, fails: a scope destroyed without a successful commit may have seen a
  commit that failed. With a store that rejects every write, \<open>Read\<close> gives 5, 7 is
  written, the commit returns false, and the scope ends: the write for the setting's key
  \<open>''/A''\<close> has been issued to the store. With no store attached and a valid cache
  holding 3, \<open>Read\<close> gives 3, 7 is written, the commit returns false and clears the
  validity flag, and after the end of the scope \<open>Read\<close> gives the value-initialised 0.
\<close>

theorem rollback_failed_commit_counterexample:
  "SettingScope_begin (world0 (Some config_reject)) = Inr (world1 (Some config_reject))
   \<and> mPath (objs (world1 (Some config_reject)) 0) = ''/A''
   \<and> fst (Read (\<noteq>) 0 (world1 (Some config_reject))) = 5
   \<and> fst (SettingTransaction_Commit (staged7 (world1 (Some config_reject)))) = False
   \<and> map_option writes (gPrefs (commit_then_end (world1 (Some config_reject)))) = Some [''/A'']
   \<and> fst (Read (\<noteq>) 0 world_cached) = 3
   \<and> fst (SettingTransaction_Commit (staged7 world_cached)) = False
   \<and> sCurrent (commit_then_end world_cached) = None
   \<and> fst (Read (\<noteq>) 0 (commit_then_end world_cached)) = 0"
  by (simp add: defs states config_reject_def world_cached_def staged7_def commit_then_end_def
      SettingScope_begin_def SettingScope_end_def SettingTransaction_Commit_def Commit_def
      Rollback_def)

lemma rollback_aux:
  fixes w1 :: "'a::default world"
  assumes "sCurrent w1 = Some \<lparr>mPending = [], mCommitted = False\<rparr>"
  shows "fst (Read differs p (SettingScope_end (snd (Write differs p v (snd (Read differs p w1))))))
           = fst (Read differs p w1)
       \<and> gPrefs (snd (Read differs p
                        (SettingScope_end (snd (Write differs p v (snd (Read differs p w1)))))))
           = gPrefs w1
       \<and> gPrefs (SettingScope_end (snd (Write differs p v (snd (Read differs p w1))))) = gPrefs w1
       \<and> gPrefs (snd (Write differs p v (snd (Read differs p w1)))) = gPrefs w1
       \<and> gPrefs (snd (Read differs p w1)) = gPrefs w1
       \<and> sCurrent (SettingScope_end (snd (Write differs p v (snd (Read differs p w1))))) = None"
proof (cases "mValid (objs w1 p)")
  case True
  with assms show ?thesis
    by (cases "mFunction (objs w1 p)") (simp_all add: defs SettingScope_end_def Rollback_def)
next
  case False
  show ?thesis
  proof (cases "gPrefs w1")
    case None
    with False assms show ?thesis
      by (cases "mFunction (objs w1 p)") (simp_all add: defs SettingScope_end_def Rollback_def)
  next
    case (Some c)
    let ?d = "fst (GetDefault p w1)"
    let ?v = "ReadObject c (mPath (objs w1 p)) ?d"
    show ?thesis
    proof (cases "differs ?v ?d")
      case True
      with Some False assms show ?thesis
        by (cases "mFunction (objs w1 p)")
           (simp_all add: defs SettingScope_end_def Rollback_def)
    next
      case nd: False
      with Some False assms show ?thesis
        by (cases "mFunction (objs w1 p)")
           (simp_all add: defs SettingScope_end_def Rollback_def)
    qed
  qed
qed

text \<open>
  C3, amended: begin a scope in a state without one, record \<open>orig\<close> as the result of
  \<open>Read\<close>, write any value \<open>v\<close> to the setting, and end the scope with no call of the
  transaction's commit in between. Then \<open>Read\<close> returns \<open>orig\<close>, and the store (its content
  and its log of issued writes) is at every stage of the sequence what it was at the start.
\<close>

theorem rollback_roundtrip:
  assumes "SettingScope_begin w0 = Inr w1"
    and "Read differs p w1 = (orig, w2)"
    and "Write differs p v w2 = (b, w3)"
    and "SettingScope_end w3 = w4"
  shows "fst (Read differs p w4) = orig
       \<and> gPrefs w1 = gPrefs w0 \<and> gPrefs w2 = gPrefs w0 \<and> gPrefs w3 = gPrefs w0
       \<and> gPrefs w4 = gPrefs w0 \<and> gPrefs (snd (Read differs p w4)) = gPrefs w0
       \<and> sCurrent w4 = None"
proof -
  from assms(1) have w1: "w1 = w0\<lparr>sCurrent := Some \<lparr>mPending = [], mCommitted = False\<rparr>\<rparr>"
    by (simp add: SettingScope_begin_def split: option.splits)
  then have sc: "sCurrent w1 = Some \<lparr>mPending = [], mCommitted = False\<rparr>"
    and g: "gPrefs w1 = gPrefs w0" by simp_all
  from assms(2) have r: "orig = fst (Read differs p w1)" "w2 = snd (Read differs p w1)"
    by simp_all
  from assms(3) have w3: "w3 = snd (Write differs p v (snd (Read differs p w1)))"
    by (simp add: r)
  from assms(4) have w4:
    "w4 = SettingScope_end (snd (Write differs p v (snd (Read differs p w1))))"
    by (simp add: w3)
  show ?thesis
    using rollback_aux [OF sc, of differs p v] by (simp add: r w3 w4 g)
qed

theorem rollback_roundtrip_witness:
  "SettingScope_begin (world0 (Some config1)) = Inr (world1 (Some config1))
   \<and> fst (Read (\<noteq>) 0 (world1 (Some config1))) = 3
   \<and> fst (Write (\<noteq>) 0 7 (snd (Read (\<noteq>) 0 (world1 (Some config1))))) = True
   \<and> mCurrentValue (objs (snd (Write (\<noteq>) 0 7 (snd (Read (\<noteq>) 0 (world1 (Some config1)))))) 0) = 7
   \<and> fst (Read (\<noteq>) 0 (SettingScope_end
                        (snd (Write (\<noteq>) 0 7 (snd (Read (\<noteq>) 0 (world1 (Some config1)))))))) = 3
   \<and> gPrefs (SettingScope_end (snd (Write (\<noteq>) 0 7 (snd (Read (\<noteq>) 0 (world1 (Some config1)))))))
       = Some config1"
proof -
  have a: "SettingScope_begin (world0 (Some config1)) = Inr (world1 (Some config1))"
    by (simp add: SettingScope_begin_def world0_def world1_def)
  have b: "Read (\<noteq>) 0 (world1 (Some config1))
      = (fst (Read (\<noteq>) 0 (world1 (Some config1))), snd (Read (\<noteq>) 0 (world1 (Some config1))))"
    and c: "Write (\<noteq>) 0 7 (snd (Read (\<noteq>) 0 (world1 (Some config1))))
      = (fst (Write (\<noteq>) 0 7 (snd (Read (\<noteq>) 0 (world1 (Some config1))))),
         snd (Write (\<noteq>) 0 7 (snd (Read (\<noteq>) 0 (world1 (Some config1))))))"
    by simp_all
  have d: "fst (Read (\<noteq>) 0 (world1 (Some config1))) = 3"
    and e: "fst (Write (\<noteq>) 0 7 (snd (Read (\<noteq>) 0 (world1 (Some config1))))) = True"
    and f: "mCurrentValue (objs (snd (Write (\<noteq>) 0 7 (snd (Read (\<noteq>) 0 (world1 (Some config1)))))) 0) = 7"
    by (simp_all add: defs states)
  have g: "gPrefs (world0 (Some config1)) = Some config1"
    by (simp add: world0_def)
  show ?thesis
    using a d e f g rollback_roundtrip [OF a b c refl] by simp
qed

subsection \<open>Committing a transaction\<close>

lemma Commit_Some:
  assumes "gPrefs w = Some c"
  shows "fst (Commit p w) = accepts c (mPath (objs w p))"
    and "gPrefs (snd (Commit p w))
           = Some (snd (Config_Write c (mPath (objs w p)) (mCurrentValue (objs w p))))"
    and "sCurrent (snd (Commit p w)) = sCurrent w"
    and "objs (snd (Commit p w)) q
           = (if q = p then (objs w p)\<lparr>mValid := accepts c (mPath (objs w p))\<rparr> else objs w q)"
  using assms
  by (simp_all add: Commit_def DoWrite_def GetConfig_def Config_Write_def update_obj_def)

lemma Commit_None:
  assumes "gPrefs w = None"
  shows "fst (Commit p w) = False"
    and "gPrefs (snd (Commit p w)) = None"
    and "sCurrent (snd (Commit p w)) = sCurrent w"
    and "objs (snd (Commit p w)) q = (if q = p then (objs w p)\<lparr>mValid := False\<rparr> else objs w q)"
  using assms
  by (simp_all add: Commit_def DoWrite_def GetConfig_def update_obj_def)

lemma commit_all_Cons:
  "commit_all (p # ps) w =
     (fst (Commit p w) \<and> fst (commit_all ps (snd (Commit p w))),
      snd (commit_all ps (snd (Commit p w))))"
  by (simp add: case_prod_beta)

lemma accepts_Config_Write: "accepts (snd (Config_Write c k v)) = accepts c"
  by (simp add: Config_Write_def)

lemma write_all_staged:
  "write_all (staged w p # kvs) c
     = write_all kvs (snd (Config_Write c (mPath (objs w p)) (mCurrentValue (objs w p))))"
  by (simp add: staged_def)

text \<open>With a store attached, committing the settings \<open>ps\<close> issues their writes in order
  and records in each setting's validity flag whether its write succeeded.\<close>

lemma commit_all_Some:
  "gPrefs w = Some c \<Longrightarrow>
     fst (commit_all ps w) = (\<forall>p\<in>set ps. accepts c (mPath (objs w p)))
   \<and> gPrefs (snd (commit_all ps w)) = Some (write_all (map (staged w) ps) c)
   \<and> sCurrent (snd (commit_all ps w)) = sCurrent w
   \<and> (\<forall>q. objs (snd (commit_all ps w)) q
          = (if q \<in> set ps then (objs w q)\<lparr>mValid := accepts c (mPath (objs w q))\<rparr>
             else objs w q))"
proof (induction ps arbitrary: w c)
  case Nil
  then show ?case by simp
next
  case (Cons p ps)
  let ?c1 = "snd (Config_Write c (mPath (objs w p)) (mCurrentValue (objs w p)))"
  let ?w1 = "snd (Commit p w)"
  note C = Commit_Some [OF Cons.prems]
  have g: "gPrefs ?w1 = Some ?c1" by (rule C(2))
  have path: "mPath (objs ?w1 q) = mPath (objs w q)" for q
    by (simp add: C(4))
  have st: "staged ?w1 q = staged w q" for q
    by (simp add: staged_def C(4))
  note IH = Cons.IH [OF g]
  have c1: "fst (commit_all (p # ps) w) = (\<forall>p\<in>set (p # ps). accepts c (mPath (objs w p)))"
    using IH by (simp only: commit_all_Cons fst_conv C(1) path accepts_Config_Write) simp
  have c2: "gPrefs (snd (commit_all (p # ps) w)) = Some (write_all (map (staged w) (p # ps)) c)"
    using IH by (simp add: commit_all_Cons st write_all_staged del: commit_all.simps)
  have c3: "sCurrent (snd (commit_all (p # ps) w)) = sCurrent w"
    using IH by (simp add: commit_all_Cons C(3) del: commit_all.simps)
  have c4: "objs (snd (commit_all (p # ps) w)) q
          = (if q \<in> set (p # ps) then (objs w q)\<lparr>mValid := accepts c (mPath (objs w q))\<rparr>
             else objs w q)" for q
  proof -
    from IH have "objs (snd (commit_all ps ?w1)) q
          = (if q \<in> set ps then (objs ?w1 q)\<lparr>mValid := accepts ?c1 (mPath (objs ?w1 q))\<rparr>
             else objs ?w1 q)" by blast
    then show ?thesis
      by (simp only: commit_all_Cons snd_conv path accepts_Config_Write) (simp add: C(4))
  qed
  from c1 c2 c3 c4 show ?case by blast
qed

lemma commit_all_None:
  "gPrefs w = None \<Longrightarrow>
     fst (commit_all ps w) = (ps = [])
   \<and> gPrefs (snd (commit_all ps w)) = None
   \<and> sCurrent (snd (commit_all ps w)) = sCurrent w
   \<and> (\<forall>q. objs (snd (commit_all ps w)) q
          = (if q \<in> set ps then (objs w q)\<lparr>mValid := False\<rparr> else objs w q))"
proof (induction ps arbitrary: w)
  case Nil
  then show ?case by simp
next
  case (Cons p ps)
  let ?w1 = "snd (Commit p w)"
  note C = Commit_None [OF Cons.prems]
  note IH = Cons.IH [OF C(2)]
  have c4: "objs (snd (commit_all (p # ps) w)) q
          = (if q \<in> set (p # ps) then (objs w q)\<lparr>mValid := False\<rparr> else objs w q)" for q
  proof -
    from IH have "objs (snd (commit_all ps ?w1)) q
          = (if q \<in> set ps then (objs ?w1 q)\<lparr>mValid := False\<rparr> else objs ?w1 q)" by blast
    then show ?thesis
      by (simp only: commit_all_Cons snd_conv) (simp add: C(4))
  qed
  from IH c4 show ?case by (simp add: commit_all_Cons C(1) C(3) del: commit_all.simps)
qed

lemma write_all_fields:
  "accepts (write_all kvs c) = accepts c
   \<and> flushes (write_all kvs c) = flushes c
   \<and> flushable (write_all kvs c) = flushable c
   \<and> writes (write_all kvs c) = writes c @ map fst kvs"
proof (induction kvs arbitrary: c)
  case Nil
  then show ?case by simp
next
  case (Cons kv kvs)
  obtain k v where kv: "kv = (k, v)" by (cases kv)
  show ?case using Cons.IH [of "snd (Config_Write c k v)"]
    by (simp add: kv Config_Write_def)
qed

lemma write_all_untouched:
  "\<forall>kv\<in>set kvs. fst kv \<noteq> k \<or> \<not> accepts c k \<Longrightarrow> entries (write_all kvs c) k = entries c k"
proof (induction kvs arbitrary: c)
  case Nil
  then show ?case by simp
next
  case (Cons kv kvs)
  obtain k0 v0 where kv: "kv = (k0, v0)" by (cases kv)
  from Cons.prems have "\<forall>kv\<in>set kvs. fst kv \<noteq> k \<or> \<not> accepts (snd (Config_Write c k0 v0)) k"
    by (simp add: accepts_Config_Write)
  from Cons.IH [OF this] Cons.prems show ?case
    by (auto simp add: kv Config_Write_def)
qed

text \<open>A key with an accepted write among \<open>kvs\<close> holds, afterwards, one of the values
  written to it.\<close>

lemma write_all_persisted:
  "k \<in> fst ` set kvs \<Longrightarrow> accepts c k \<Longrightarrow>
   \<exists>v'. (k, v') \<in> set kvs \<and> entries (write_all kvs c) k = Some v'"
proof (induction kvs arbitrary: c)
  case Nil
  then show ?case by simp
next
  case (Cons kv kvs)
  obtain k0 v0 where kv: "kv = (k0, v0)" by (cases kv)
  let ?c1 = "snd (Config_Write c k0 v0)"
  have acc: "accepts ?c1 k" using Cons.prems(2) by (simp add: accepts_Config_Write)
  show ?case
  proof (cases "k \<in> fst ` set kvs")
    case True
    from Cons.IH [OF True acc] show ?thesis by (auto simp add: kv)
  next
    case False
    then have "\<forall>kv\<in>set kvs. fst kv \<noteq> k \<or> \<not> accepts ?c1 k" by auto
    then have "entries (write_all kvs ?c1) k = entries ?c1 k"
      by (rule write_all_untouched)
    moreover from False Cons.prems(1) have "k0 = k" by (auto simp add: kv)
    ultimately show ?thesis using Cons.prems(2) by (auto simp add: kv Config_Write_def)
  qed
qed

text \<open>
  C2: \<open>SettingTransaction_Commit\<close> on the current scope \<open>sc\<close> returns true iff the commit
  of every staged setting succeeds, that is, a store is attached and accepts the write of
  each staged key. Whatever the outcome, the commit operation of every staged setting has
  run: one write per staged setting has been issued to the store, in order, each staged
  setting's validity flag records whether its write succeeded, and no cached value has
  changed (nothing is rolled back). On success the store is flushed exactly once and the
  scope is marked committed; on failure there is no flush and the scope is as it was. In
  both cases a staged key whose write the store accepts holds afterwards a value staged
  for that key, so a failed commit can leave part of the writes persisted.
\<close>

theorem SettingTransaction_Commit_result:
  assumes "sCurrent w = Some sc"
    and "SettingTransaction_Commit w = (ok, w')"
  shows "ok = (\<forall>p\<in>set (mPending sc). \<exists>c. gPrefs w = Some c \<and> accepts c (mPath (objs w p)))
    \<and> (\<forall>q. objs w' q =
          (if q \<in> set (mPending sc)
           then (objs w q)\<lparr>mValid := (\<exists>c. gPrefs w = Some c \<and> accepts c (mPath (objs w q)))\<rparr>
           else objs w q))
    \<and> map_option writes (gPrefs w')
        = map_option (\<lambda>c. writes c @ map (\<lambda>p. mPath (objs w p)) (mPending sc)) (gPrefs w)
    \<and> (ok \<longrightarrow> sCurrent w' = Some (sc\<lparr>mCommitted := True\<rparr>)
            \<and> map_option flushes (gPrefs w') = map_option (\<lambda>c. Suc (flushes c)) (gPrefs w))
    \<and> (\<not> ok \<longrightarrow> sCurrent w' = Some sc
            \<and> map_option flushes (gPrefs w') = map_option flushes (gPrefs w))
    \<and> (\<forall>p\<in>set (mPending sc). \<forall>c. gPrefs w = Some c \<and> accepts c (mPath (objs w p)) \<longrightarrow>
          (\<exists>c' q. gPrefs w' = Some c' \<and> q \<in> set (mPending sc)
              \<and> mPath (objs w q) = mPath (objs w p)
              \<and> entries c' (mPath (objs w p)) = Some (mCurrentValue (objs w q))))"
proof (cases "gPrefs w")
  case None
  note A = commit_all_None [OF None, of "mPending sc"]
  from assms A have ok: "ok = (mPending sc = [])"
    by (auto simp add: SettingTransaction_Commit_def case_prod_beta split: if_splits)
  from assms A have w': "objs w' = objs (snd (commit_all (mPending sc) w))"
    "gPrefs w' = None"
    "sCurrent w' = Some (if ok then sc\<lparr>mCommitted := True\<rparr> else sc)"
    by (auto simp add: SettingTransaction_Commit_def case_prod_beta split: if_splits)
  show ?thesis
    using A by (simp add: None w' ok)
next
  case (Some c)
  let ?kvs = "map (staged w) (mPending sc)"
  let ?c1 = "write_all ?kvs c"
  note A = commit_all_Some [OF Some, of "mPending sc"]
  note F = write_all_fields [of ?kvs c]
  from assms A have ok: "ok = (\<forall>p\<in>set (mPending sc). accepts c (mPath (objs w p)))"
    by (auto simp add: SettingTransaction_Commit_def case_prod_beta split: if_splits)
  from assms A have w': "objs w' = objs (snd (commit_all (mPending sc) w))"
    "gPrefs w' = Some (if ok then snd (Flush ?c1) else ?c1)"
    "sCurrent w' = Some (if ok then sc\<lparr>mCommitted := True\<rparr> else sc)"
    by (auto simp add: SettingTransaction_Commit_def case_prod_beta split: if_splits)
  have ent: "entries (if ok then snd (Flush ?c1) else ?c1) = entries ?c1"
    by (simp add: Flush_def)
  have pers: "\<exists>q. q \<in> set (mPending sc) \<and> mPath (objs w q) = mPath (objs w p)
              \<and> entries ?c1 (mPath (objs w p)) = Some (mCurrentValue (objs w q))"
    if p: "p \<in> set (mPending sc)" and acc: "accepts c (mPath (objs w p))" for p
  proof -
    from p have "mPath (objs w p) \<in> fst ` set ?kvs"
      by (force simp add: staged_def)
    from write_all_persisted [OF this acc]
    obtain v' where "(mPath (objs w p), v') \<in> set ?kvs"
      and e: "entries ?c1 (mPath (objs w p)) = Some v'" by blast
    then obtain q where "q \<in> set (mPending sc)" "staged w q = (mPath (objs w p), v')"
      by auto
    with e show ?thesis by (auto simp add: staged_def)
  qed
  have c1: "ok = (\<forall>p\<in>set (mPending sc). \<exists>c. gPrefs w = Some c \<and> accepts c (mPath (objs w p)))"
    by (simp add: ok Some)
  have c2: "\<forall>q. objs w' q =
          (if q \<in> set (mPending sc)
           then (objs w q)\<lparr>mValid := (\<exists>c. gPrefs w = Some c \<and> accepts c (mPath (objs w q)))\<rparr>
           else objs w q)"
    using A by (simp add: w' Some)
  have c3: "map_option writes (gPrefs w')
        = map_option (\<lambda>c. writes c @ map (\<lambda>p. mPath (objs w p)) (mPending sc)) (gPrefs w)"
    using F by (simp add: w' Some Flush_def staged_def)
  have c4: "ok \<longrightarrow> sCurrent w' = Some (sc\<lparr>mCommitted := True\<rparr>)
            \<and> map_option flushes (gPrefs w') = map_option (\<lambda>c. Suc (flushes c)) (gPrefs w)"
    using F by (simp add: w' Some Flush_def)
  have c5: "\<not> ok \<longrightarrow> sCurrent w' = Some sc
            \<and> map_option flushes (gPrefs w') = map_option flushes (gPrefs w)"
    using F by (simp add: w' Some)
  from pers have c6: "\<forall>p\<in>set (mPending sc). \<forall>c. gPrefs w = Some c \<and> accepts c (mPath (objs w p)) \<longrightarrow>
          (\<exists>c' q. gPrefs w' = Some c' \<and> q \<in> set (mPending sc)
              \<and> mPath (objs w q) = mPath (objs w p)
              \<and> entries c' (mPath (objs w p)) = Some (mCurrentValue (objs w q)))"
    by (simp add: w' Some ent)
  from c1 c2 c3 c4 c5 c6 show ?thesis by blast
qed

lemmas states2 = staged_AB_def world_AB_def config_A_def config0_def Setting_value_def
  default_int_def

lemmas commit_defs = SettingTransaction_Commit_def Commit_def Flush_def

theorem SettingTransaction_Commit_result_witness:
  "sCurrent (staged_AB config_A) = Some \<lparr>mPending = [0, 1], mCommitted = False\<rparr>
   \<and> fst (SettingTransaction_Commit (staged_AB config_A)) = False
   \<and> map_option (\<lambda>c. entries c ''/A'') (gPrefs (snd (SettingTransaction_Commit (staged_AB config_A))))
       = Some (Some 7)
   \<and> map_option (\<lambda>c. entries c ''/B'') (gPrefs (snd (SettingTransaction_Commit (staged_AB config_A))))
       = Some None
   \<and> mCurrentValue (objs (snd (SettingTransaction_Commit (staged_AB config_A))) 0) = 7
   \<and> mCurrentValue (objs (snd (SettingTransaction_Commit (staged_AB config_A))) 1) = 8
   \<and> map_option flushes (gPrefs (snd (SettingTransaction_Commit (staged_AB config_A)))) = Some 0
   \<and> sCurrent (snd (SettingTransaction_Commit (staged_AB config_A)))
       = Some \<lparr>mPending = [0, 1], mCommitted = False\<rparr>
   \<and> sCurrent (staged_AB config0) = Some \<lparr>mPending = [0, 1], mCommitted = False\<rparr>
   \<and> fst (SettingTransaction_Commit (staged_AB config0)) = True
   \<and> map_option flushes (gPrefs (snd (SettingTransaction_Commit (staged_AB config0)))) = Some 1
   \<and> map_option writes (gPrefs (snd (SettingTransaction_Commit (staged_AB config0))))
       = Some [''/A'', ''/B'']
   \<and> sCurrent (snd (SettingTransaction_Commit (staged_AB config0)))
       = Some \<lparr>mPending = [0, 1], mCommitted = True\<rparr>"
proof -
  have a: "sCurrent (staged_AB config_A) = Some \<lparr>mPending = [0, 1], mCommitted = False\<rparr>"
    and b: "sCurrent (staged_AB config0) = Some \<lparr>mPending = [0, 1], mCommitted = False\<rparr>"
    by (simp_all add: defs states2)
  have c: "SettingTransaction_Commit w = (fst (SettingTransaction_Commit w),
      snd (SettingTransaction_Commit w))" for w :: "int world"
    by simp
  show ?thesis
    using a b SettingTransaction_Commit_result [OF a c] SettingTransaction_Commit_result [OF b c]
    by (simp add: defs states2 commit_defs)
qed

subsection \<open>Construction of choice and enumeration settings\<close>

lemma long_of_size_small: "n < 2 ^ 63 \<Longrightarrow> long_of_size n = int n"
proof -
  assume n: "n < 2 ^ 63"
  have "sint (word_of_nat n :: 64 word) = (int n + 2 ^ 63) mod 2 ^ 64 - 2 ^ 63"
    using int_word_sint [of "int n", where ?'a = 64] by simp
  also have "\<dots> = int n"
    using n by simp
  finally show ?thesis by (simp add: long_of_size_def)
qed

text \<open>
  C7: for a symbol table of fewer than \<open>2 ^ 63\<close> rows, a construction of a
  \<^verbatim>\<open>ChoiceSetting\<close> (by either constructor) whose default row is greater than or equal to
  the size of the table fails its assertion; the construction succeeds exactly when the
  default row is less than the size of the table; and the sentinel \<open>- 1\<close> is accepted for
  every table.
\<close>

theorem ChoiceSetting_default_bounds:
  assumes "length symbols < 2 ^ 63"
  shows "(int (length symbols) \<le> sint defaultSymbol \<longrightarrow>
            ChoiceSetting_ctor key other symbols defaultSymbol = Inl AssertionFailed)
       \<and> ((\<exists>c. ChoiceSetting_ctor key other symbols defaultSymbol = Inr c)
            = (sint defaultSymbol < int (length symbols)))
       \<and> (\<exists>c. ChoiceSetting_ctor key other symbols (- 1) = Inr c)"
  using long_of_size_small [OF assms]
  by (simp add: ChoiceSetting_ctor_def)

theorem ChoiceSetting_default_bounds_witness:
  "length symbols3 < 2 ^ 63
   \<and> int (length symbols3) \<le> sint (3 :: 64 word)
   \<and> ChoiceSetting_ctor ''/K'' None symbols3 3 = Inl AssertionFailed
   \<and> sint (2 :: 64 word) < int (length symbols3)
   \<and> (\<exists>c. ChoiceSetting_ctor ''/K'' None symbols3 2 = Inr c)
   \<and> (\<exists>c. ChoiceSetting_ctor ''/K'' None symbols3 (- 1) = Inr c)"
proof -
  have a: "length symbols3 < 2 ^ 63" by (simp add: symbols3_def)
  show ?thesis
    using a ChoiceSetting_default_bounds [OF a, of 3 "''/K''" None]
      ChoiceSetting_default_bounds [OF a, of 2 "''/K''" None]
    by (simp add: symbols3_def)
qed

text \<open>The calls after construction leave both tables as they are.\<close>

lemma enum_step_tables:
  "enum_step c (e, cfg) = Inr (e', cfg') \<Longrightarrow>
   mSymbols e' = mSymbols e \<and> mIntValues e' = mIntValues e"
  by (cases c) (auto simp add: Migrate_def SetDefault_def split: if_splits sum.splits)

lemma enum_run_tables:
  "enum_run cs (e, cfg) = Inr (e', cfg') \<Longrightarrow>
   mSymbols e' = mSymbols e \<and> mIntValues e' = mIntValues e"
proof (induction cs arbitrary: e cfg)
  case Nil
  then show ?case by simp
next
  case (Cons c cs)
  from Cons.prems obtain e1 cfg1 where s: "enum_step c (e, cfg) = Inr (e1, cfg1)"
    and r: "enum_run cs (e1, cfg1) = Inr (e', cfg')"
    by (auto split: sum.splits)
  from enum_step_tables [OF s] Cons.IH [OF r] show ?case by simp
qed

lemma EnumSettingBase_ctor_tables:
  "EnumSettingBase_ctor key other symbols defaultSymbol intValues oldKey = Inr e \<Longrightarrow>
   mSymbols e = symbols \<and> mIntValues e = intValues \<and> length intValues = length symbols"
  by (auto simp add: EnumSettingBase_ctor_def ChoiceSetting_ctor_def ChoiceSetting.extend_def
      split: if_splits sum.splits)

text \<open>
  C8: if the construction of an \<^verbatim>\<open>EnumSettingBase\<close>, or of an \<^verbatim>\<open>EnumSetting<Enum>\<close>
  from a table of enumerators, succeeds, then the table of integer codes and the symbol
  table given to it have equal length, and they are the tables of the object; after any
  run of calls on the object that returns, the object still has these two tables, so that
  a row index is valid for one table iff it is valid for the other.
\<close>

theorem EnumSettingBase_tables:
  assumes "EnumSettingBase_ctor key other symbols defaultSymbol intValues oldKey = Inr e
           \<or> (intValues = map to_int values
               \<and> EnumSetting_ctor to_int key other symbols defaultSymbol values oldKey = Inr e)"
    and "enum_run cs (e, cfg) = Inr (e', cfg')"
  shows "length intValues = length symbols
       \<and> mSymbols e = symbols \<and> mIntValues e = intValues
       \<and> mSymbols e' = symbols \<and> mIntValues e' = intValues
       \<and> length (mIntValues e') = length (mSymbols e')
       \<and> (\<forall>row. row < length (mIntValues e') \<longleftrightarrow> row < length (mSymbols e'))"
proof -
  from assms(1)
  have "EnumSettingBase_ctor key other symbols defaultSymbol intValues oldKey = Inr e"
    by (auto simp add: EnumSetting_ctor_def)
  from EnumSettingBase_ctor_tables [OF this] enum_run_tables [OF assms(2)]
  show ?thesis by simp
qed

lemmas enum_defs = EnumSettingBase_ctor_def ChoiceSetting_ctor_def ChoiceSetting.extend_def
  Migrate_def WriteInt_def FindInt_def SetDefault_def ChoiceSetting_Write_def Config_Write_def
  DeleteEntry_def Let_def

theorem EnumSettingBase_tables_witness:
  "EnumSettingBase_ctor ''/K'' None symbols3 0 [10, 20, 30] ''/old'' = Inr enum3
   \<and> enum_run [CallRead, CallSetDefault 1, CallWriteInt 20] (enum3, Some store3)
       = Inr (enum3\<lparr>mMigrated := True, mDefaultSymbol := 1\<rparr>,
              Some (store3\<lparr>entries := [''/K'' \<mapsto> StringValue ''b''],
                           writes := [''/K'', ''/K'']\<rparr>))
   \<and> length [10, 20, 30 :: int] = length symbols3
   \<and> mSymbols (enum3\<lparr>mMigrated := True, mDefaultSymbol := 1\<rparr>) = symbols3
   \<and> mIntValues (enum3\<lparr>mMigrated := True, mDefaultSymbol := 1\<rparr>) = [10, 20, 30]"
proof -
  have l: "long_of_size (length symbols3) = 3"
    by (simp add: long_of_size_small symbols3_def)
  have a: "EnumSettingBase_ctor ''/K'' None symbols3 0 [10, 20, 30] ''/old'' = Inr enum3"
    by (simp add: enum_defs l enum3_def) (simp add: symbols3_def)
  have b: "enum_run [CallRead, CallSetDefault 1, CallWriteInt 20] (enum3, Some store3)
       = Inr (enum3\<lparr>mMigrated := True, mDefaultSymbol := 1\<rparr>,
              Some (store3\<lparr>entries := [''/K'' \<mapsto> StringValue ''b''],
                           writes := [''/K'', ''/K'']\<rparr>))"
    by (simp add: enum_defs l enum3_def store3_def) (simp add: symbols3_def fun_eq_iff)
  show ?thesis
    using a b EnumSettingBase_tables [OF disjI1 [OF a] b] by simp
qed


end
